theory Spec2Isabelle
  imports Complex_Main "HOL-Library.AList" "HOL-Library.Multiset"
begin

section \<open>The Tomato Wordle solver (solver.py)\<close>

text \<open>
  A shallow embedding of \<^verbatim>\<open>src/solver.py\<close>. Python strings are \<open>string\<close>
  (lists of characters), \<^verbatim>\<open>len\<close> and loop indices are \<open>nat\<close>, the \<^verbatim>\<open>length\<close>
  argument of the sessions is an \<open>int\<close>. Every exception the source can raise is a value
  of \<open>error\<close>, returned as \<open>Inl\<close>. Console output (\<^verbatim>\<open>print\<close>, the progress bar of
  \<^verbatim>\<open>tqdm\<close>, \<^verbatim>\<open>visualize_candidates\<close>) has no influence on any returned value and is
  left out; where two outcomes of the source differ only in the message printed, the model
  keeps them apart by a constructor of their own.
\<close>

subsection \<open>Exceptions\<close>

datatype error = IndexError | KeyError | ValueError | ZeroDivisionError | EOFError

subsection \<open>feedback\<close>

text \<open>
  \<^verbatim>\<open>fb = ['b'] * len(guess)\<close> and \<^verbatim>\<open>used = [False] * len(target)\<close> are the two lists
  the loops update in place; the model passes the pair along.

  First loop: \<^verbatim>\<open>for i in range(len(guess)): if guess[i] == target[i]: ...\<close>.
  Reading \<^verbatim>\<open>target[i]\<close> raises IndexError as soon as \<open>i\<close> reaches \<^verbatim>\<open>len(target)\<close>.
\<close>

function first_pass :: "string \<Rightarrow> string \<Rightarrow> nat \<Rightarrow> string \<times> bool list \<Rightarrow> error + (string \<times> bool list)" where
  "first_pass guess target i (fb, used) =
     (if i < length guess then
        (if length target \<le> i then Inl IndexError
         else if guess ! i = target ! i
           then first_pass guess target (Suc i) (fb[i := CHR ''g''], used[i := True])
           else first_pass guess target (Suc i) (fb, used))
      else Inr (fb, used))"
  by pat_completeness auto
termination
  by (relation "measure (\<lambda>(guess, target, i, s). length guess - i)") auto

text \<open>
  The inner loop of the second pass: the first \<open>j\<close> in \<^verbatim>\<open>range(len(target))\<close>, from
  \<open>j\<close> on, with \<^verbatim>\<open>not used[j] and guess[i] == target[j]\<close>; \<open>None\<close> when the loop ends
  without \<^verbatim>\<open>break\<close>.
\<close>

function find_unused :: "char \<Rightarrow> string \<Rightarrow> bool list \<Rightarrow> nat \<Rightarrow> nat option" where
  "find_unused c target used j =
     (if j < length target then
        (if \<not> used ! j \<and> c = target ! j then Some j
         else find_unused c target used (Suc j))
      else None)"
  by pat_completeness auto
termination
  by (relation "measure (\<lambda>(c, target, used, j). length target - j)") auto

text \<open>Second loop: positions already \<^verbatim>\<open>'g'\<close> are skipped (\<^verbatim>\<open>continue\<close>).\<close>

function second_pass :: "string \<Rightarrow> string \<Rightarrow> nat \<Rightarrow> string \<times> bool list \<Rightarrow> string \<times> bool list" where
  "second_pass guess target i (fb, used) =
     (if i < length guess then
        (if fb ! i = CHR ''g'' then second_pass guess target (Suc i) (fb, used)
         else (case find_unused (guess ! i) target used 0 of
                 Some j \<Rightarrow> second_pass guess target (Suc i) (fb[i := CHR ''y''], used[j := True])
               | None \<Rightarrow> second_pass guess target (Suc i) (fb, used)))
      else (fb, used))"
  by pat_completeness auto
termination
  by (relation "measure (\<lambda>(guess, target, i, s). length guess - i)") auto

definition feedback :: "string \<Rightarrow> string \<Rightarrow> error + string" where
  "feedback guess target =
     (case first_pass guess target 0
             (replicate (length guess) CHR ''b'', replicate (length target) False) of
        Inl e \<Rightarrow> Inl e
      | Inr s \<Rightarrow> Inr (fst (second_pass guess target 0 s)))"

subsection \<open>filter_candidates\<close>

text \<open>
  The list comprehension \<^verbatim>\<open>[word for word in candidates if feedback(guess, word) == fb]\<close>
  visits the candidates from left to right; the first exception of \<open>feedback\<close> ends it.
\<close>

fun filter_candidates :: "string list \<Rightarrow> string \<Rightarrow> string \<Rightarrow> error + string list" where
  "filter_candidates [] guess fb = Inr []"
| "filter_candidates (word # rest) guess fb =
     (case feedback guess word of
        Inl e \<Rightarrow> Inl e
      | Inr f \<Rightarrow>
          (case filter_candidates rest guess fb of
             Inl e \<Rightarrow> Inl e
           | Inr ws \<Rightarrow> Inr (if f = fb then word # ws else ws)))"

subsection \<open>calculate_entropy\<close>

text \<open>
  \<^verbatim>\<open>pattern_counts\<close> is a dict. Python dicts keep insertion order, and the second
  loop of \<^verbatim>\<open>calculate_entropy\<close> walks \<^verbatim>\<open>pattern_counts.values()\<close> in that order, so
  the dict is an association list: \<open>AList.update\<close> overwrites the value of a key that
  is present, in place, and appends a new key at the end, as the assignment
  \<^verbatim>\<open>pattern_counts[f] = ...\<close> does. \<open>get_count pc f\<close> is \<^verbatim>\<open>pattern_counts.get(f, 0)\<close>.
\<close>

definition get_count :: "(string \<times> nat) list \<Rightarrow> string \<Rightarrow> nat" where
  "get_count pattern_counts f = (case map_of pattern_counts f of None \<Rightarrow> 0 | Some c \<Rightarrow> c)"

fun count_patterns :: "string \<Rightarrow> string list \<Rightarrow> (string \<times> nat) list \<Rightarrow> error + (string \<times> nat) list" where
  "count_patterns guess [] pattern_counts = Inr pattern_counts"
| "count_patterns guess (target # rest) pattern_counts =
     (case feedback guess target of
        Inl e \<Rightarrow> Inl e
      | Inr f \<Rightarrow> count_patterns guess rest
                 (AList.update f (get_count pattern_counts f + 1) pattern_counts))"

text \<open>
  Floating point. Python's floats are IEEE doubles. Every finite double is a real number,
  and negating and comparing doubles is exact, so the values are of type \<open>real\<close>. The
  four operations of the loop body round their results, and what they return depends on
  the platform (\<^verbatim>\<open>math.log2\<close> is the C library's): they are the parameter \<open>ops\<close>.
  \<open>fdiv ops cnt tot\<close> is \<^verbatim>\<open>count / total\<close> on the two integers, \<open>flog2 ops\<close> is
  \<^verbatim>\<open>math.log2\<close>, \<open>fmul ops\<close> the product and \<open>fsub ops\<close> the difference of two floats.
\<close>

record float_ops =
  fdiv :: "nat \<Rightarrow> nat \<Rightarrow> real"
  flog2 :: "real \<Rightarrow> real"
  fmul :: "real \<Rightarrow> real \<Rightarrow> real"
  fsub :: "real \<Rightarrow> real \<Rightarrow> real"

text \<open>The arithmetic that does not round.\<close>

definition exact_arith :: float_ops where
  "exact_arith =
     \<lparr>fdiv = (\<lambda>cnt tot. real cnt / real tot), flog2 = log 2, fmul = (*), fsub = (-)\<rparr>"

text \<open>
  The second loop, \<^verbatim>\<open>entropy -= p * math.log2(p)\<close> with \<^verbatim>\<open>p = count / total\<close>. The
  two exceptions of the loop body are: \<^verbatim>\<open>count / total\<close> raises ZeroDivisionError when
  \<^verbatim>\<open>total\<close> is 0, and \<^verbatim>\<open>math.log2(p)\<close> raises ValueError when \<^verbatim>\<open>p\<close> is not
  positive. (\<open>tot\<close> and \<open>cnt\<close> are \<^verbatim>\<open>total\<close> and \<^verbatim>\<open>count\<close>.)
\<close>

fun entropy_sum :: "float_ops \<Rightarrow> nat \<Rightarrow> nat list \<Rightarrow> real \<Rightarrow> error + real" where
  "entropy_sum ops tot [] entropy = Inr entropy"
| "entropy_sum ops tot (cnt # rest) entropy =
     (if tot = 0 then Inl ZeroDivisionError
      else let p = fdiv ops cnt tot in
        if p \<le> 0 then Inl ValueError
        else entropy_sum ops tot rest (fsub ops entropy (fmul ops p (flog2 ops p))))"

definition calculate_entropy :: "float_ops \<Rightarrow> string \<Rightarrow> string list \<Rightarrow> error + real" where
  "calculate_entropy ops guess candidates =
     (let tot = length candidates in
      case count_patterns guess candidates [] of
        Inl e \<Rightarrow> Inl e
      | Inr pattern_counts \<Rightarrow> entropy_sum ops tot (map snd pattern_counts) 0)"

subsection \<open>rank_guesses\<close>

text \<open>
  The loop \<^verbatim>\<open>for word in bar: ... entropies.append((word, e))\<close>; \<^verbatim>\<open>bar\<close> iterates
  \<^verbatim>\<open>full_vocab\<close> in order.
\<close>

fun entropies_of :: "float_ops \<Rightarrow> string list \<Rightarrow> string list \<Rightarrow> error + (string \<times> real) list" where
  "entropies_of ops candidates [] = Inr []"
| "entropies_of ops candidates (word # rest) =
     (case calculate_entropy ops word candidates of
        Inl x \<Rightarrow> Inl x
      | Inr e \<Rightarrow>
          (case entropies_of ops candidates rest of
             Inl x \<Rightarrow> Inl x
           | Inr entropies \<Rightarrow> Inr ((word, e) # entropies)))"

text \<open>
  The slice \<^verbatim>\<open>xs[:n]\<close> for an integer \<open>n\<close>: the first \<open>n\<close> elements when \<open>n\<close> is not
  negative, all but the last \<open>-n\<close> otherwise.
\<close>

definition slice_to :: "int \<Rightarrow> 'a list \<Rightarrow> 'a list" where
  "slice_to n xs = (if 0 \<le> n then take (nat n) xs else take (nat (int (length xs) + n)) xs)"

text \<open>
  \<^verbatim>\<open>entropies.sort(key=lambda x: -x[1])\<close>: Python's \<^verbatim>\<open>list.sort\<close> is a stable sort,
  ascending in the key. \<open>sort_key\<close> is the stable sort of HOL, and a stable sort by
  a key has one result only, so it stands for \<^verbatim>\<open>list.sort\<close>. The key is the negated
  float, and the keys are compared as floats are: by their values.
\<close>

definition rank_guesses :: "float_ops \<Rightarrow> string list \<Rightarrow> string list \<Rightarrow> int \<Rightarrow> error + (string \<times> real) list" where
  "rank_guesses ops candidates full_vocab topn =
     (case entropies_of ops candidates full_vocab of
        Inl x \<Rightarrow> Inl x
      | Inr entropies \<Rightarrow> Inr (slice_to topn (sort_key (\<lambda>x. - snd x) entropies)))"

subsection \<open>The vocabulary\<close>

definition MIN_LEN :: int where "MIN_LEN = 3"

definition MAX_LEN :: int where "MAX_LEN = 15"

text \<open>
  \<^verbatim>\<open>load_vocab\<close> builds the module-level dict \<^verbatim>\<open>VOCABULARY_BY_LENGTH\<close>, with one key for
  every \<open>n\<close> in \<^verbatim>\<open>range(MIN_LEN, MAX_LEN + 1)\<close>. The word set of the package
  \<^verbatim>\<open>english_words\<close> is not part of the repository: \<open>all_words\<close>, the alphabetic words
  of that set in the order Python enumerates them, is a parameter.
\<close>

definition load_vocab :: "string list \<Rightarrow> (int \<rightharpoonup> string list)" where
  "load_vocab all_words =
     (\<lambda>n. if MIN_LEN \<le> n \<and> n \<le> MAX_LEN
           then Some (take 500000 (filter (\<lambda>w. int (length w) = n) all_words))
           else None)"

subsection \<open>play_wordle\<close>

text \<open>
  \<^verbatim>\<open>play_wordle\<close> returns the number of turns, or \<open>-1\<close> after one of two messages:
  that the target is invalid, or that no candidates are left. The model keeps the two
  apart; \<open>return_value\<close> is the integer the source returns.
\<close>

datatype outcome = Solved nat | InvalidTarget | Exhausted

fun return_value :: "outcome \<Rightarrow> int" where
  "return_value (Solved turns) = int turns"
| "return_value InvalidTarget = - 1"
| "return_value Exhausted = - 1"

text \<open>
  \<^verbatim>\<open>random.choice(candidates)\<close> raises IndexError on an empty list. The random source is
  the parameter \<open>rnd\<close>.
\<close>

definition choice :: "nat \<Rightarrow> 'a list \<Rightarrow> error + 'a" where
  "choice rnd xs = (if xs = [] then Inl IndexError else Inr (xs ! (rnd mod length xs)))"

text \<open>
  The loop \<^verbatim>\<open>while True\<close>, entered with \<open>turns\<close> turns played. It has no bound in the
  source, so \<open>None\<close> is the loop that never returns.
  \<^verbatim>\<open>rank_guesses(candidates, candidates, 1)[0]\<close> raises IndexError on an empty ranking.
\<close>

partial_function (option) solve_loop :: "float_ops \<Rightarrow> int \<Rightarrow> string \<Rightarrow> string list \<Rightarrow> nat \<Rightarrow> (error + outcome) option" where
  "solve_loop ops len target candidates turns =
     (case rank_guesses ops candidates candidates 1 of
        Inl e \<Rightarrow> Some (Inl e)
      | Inr [] \<Rightarrow> Some (Inl IndexError)
      | Inr ((guess, ent) # _) \<Rightarrow>
          (case feedback guess target of
             Inl e \<Rightarrow> Some (Inl e)
           | Inr fb \<Rightarrow>
               if fb = replicate (nat len) CHR ''g'' then Some (Inr (Solved (turns + 1)))
               else (case filter_candidates candidates guess fb of
                       Inl e \<Rightarrow> Some (Inl e)
                     | Inr candidates' \<Rightarrow>
                         if candidates' = [] then Some (Inr Exhausted)
                         else solve_loop ops len target candidates' (turns + 1))))"

text \<open>
  The truth value of the argument \<^verbatim>\<open>target\<close>: \<^verbatim>\<open>if target:\<close> and \<^verbatim>\<open>target or ...\<close>
  take \<^verbatim>\<open>None\<close> and the empty string alike, as no target.
\<close>

definition truthy :: "string option \<Rightarrow> string option" where
  "truthy target = (case target of None \<Rightarrow> None | Some t \<Rightarrow> if t = [] then None else Some t)"

text \<open>
  \<open>vocab\<close> is the dict \<^verbatim>\<open>VOCABULARY_BY_LENGTH\<close>; \<open>len\<close> is the argument \<^verbatim>\<open>length\<close>.
  The two statements that read \<^verbatim>\<open>target\<close> are the test
  \<^verbatim>\<open>if target: if len(target) != length or target not in full_vocab: return -1\<close> and the
  assignment \<^verbatim>\<open>target = target or random.choice(candidates)\<close>.
  The argument \<^verbatim>\<open>verbose\<close> only selects what is printed. \<open>ops\<close> is the
  floating-point arithmetic of the platform.
\<close>

definition play_wordle :: "float_ops \<Rightarrow> (int \<rightharpoonup> string list) \<Rightarrow> nat \<Rightarrow> int \<Rightarrow> string option \<Rightarrow> (error + outcome) option" where
  "play_wordle ops vocab rnd len target =
     (if len < MIN_LEN \<or> len > MAX_LEN then Some (Inl ValueError)
      else case vocab len of
        None \<Rightarrow> Some (Inl KeyError)
      | Some full_vocab \<Rightarrow>
          (let candidates = full_vocab in
           if (case truthy target of
                 None \<Rightarrow> False
               | Some t \<Rightarrow> int (length t) \<noteq> len \<or> t \<notin> set full_vocab)
           then Some (Inr InvalidTarget)
           else (case (case truthy target of
                         None \<Rightarrow> choice rnd candidates
                       | Some t \<Rightarrow> Inr t) of
                   Inl e \<Rightarrow> Some (Inl e)
                 | Inr t \<Rightarrow> solve_loop ops len t candidates 0)))"

subsection \<open>interactive_manual_mode\<close>

text \<open>
  The session returns nothing; it ends after one of three messages. \<open>inputs\<close> are the
  lines the calls of \<^verbatim>\<open>input(...).strip().lower()\<close> return, in order; \<^verbatim>\<open>input\<close> raises
  EOFError when there is none left. \<open>turn\<close> is the counter before \<^verbatim>\<open>turn += 1\<close>; a
  rejected line leaves it as it was (\<^verbatim>\<open>turn -= 1; continue\<close>).
\<close>

datatype session_end = NoVocabulary | Success string nat | NoCandidatesMatch

fun interactive_loop :: "float_ops \<Rightarrow> int \<Rightarrow> string list \<Rightarrow> string list \<Rightarrow> nat \<Rightarrow> string list \<Rightarrow> error + session_end" where
  "interactive_loop ops len full_vocab candidates turn [] = Inl EOFError"
| "interactive_loop ops len full_vocab candidates turn [guess] = Inl EOFError"
| "interactive_loop ops len full_vocab candidates turn (guess # fb # rest) =
     (if int (length guess) \<noteq> len \<or> guess \<notin> set full_vocab
        then interactive_loop ops len full_vocab candidates turn (fb # rest)
      else if int (length fb) \<noteq> len \<or> (\<exists>c\<in>set fb. c \<notin> set ''gyb'')
        then interactive_loop ops len full_vocab candidates turn rest
      else if fb = replicate (nat len) CHR ''g'' then Inr (Success guess (turn + 1))
      else (case filter_candidates candidates guess fb of
              Inl e \<Rightarrow> Inl e
            | Inr candidates' \<Rightarrow>
                if candidates' = [] then Inr NoCandidatesMatch
                else (case rank_guesses ops candidates' candidates' 100 of
                        Inl e \<Rightarrow> Inl e
                      | Inr suggestions \<Rightarrow>
                          interactive_loop ops len full_vocab candidates' (turn + 1) rest)))"

text \<open>
  \<^verbatim>\<open>VOCABULARY_BY_LENGTH.get(length)\<close> is \<^verbatim>\<open>None\<close> for a missing key, and
  \<^verbatim>\<open>not full_vocab\<close> holds for \<^verbatim>\<open>None\<close> and for the empty list alike.
\<close>

definition interactive_manual_mode :: "float_ops \<Rightarrow> (int \<rightharpoonup> string list) \<Rightarrow> int \<Rightarrow> string list \<Rightarrow> error + session_end" where
  "interactive_manual_mode ops vocab len inputs =
     (case vocab len of
        None \<Rightarrow> Inr NoVocabulary
      | Some full_vocab \<Rightarrow>
          if full_vocab = [] then Inr NoVocabulary
          else interactive_loop ops len full_vocab full_vocab 0 inputs)"

subsection \<open>Positions counted in the proofs\<close>

text \<open>
  The positions of \<open>guess\<close> that hold the letter \<open>L\<close> and are marked \<^verbatim>\<open>'g'\<close> or
  \<^verbatim>\<open>'y'\<close>, and the positions of \<open>target\<close> that hold \<open>L\<close> and are used.
\<close>

definition marked_at :: "string \<Rightarrow> string \<Rightarrow> char \<Rightarrow> nat set" where
  "marked_at guess fb L =
     {k. k < length guess \<and> guess ! k = L \<and> (fb ! k = CHR ''g'' \<or> fb ! k = CHR ''y'')}"

definition used_at :: "string \<Rightarrow> bool list \<Rightarrow> char \<Rightarrow> nat set" where
  "used_at target used L = {j. j < length target \<and> target ! j = L \<and> used ! j}"

subsection \<open>Notions used in the proofs about the entropy\<close>

text \<open>
  \<open>tally fs pc\<close> is the dict after the patterns \<open>fs\<close> have been counted into \<open>pc\<close>;
  \<open>pattern_of guess target\<close> is the pattern that \<open>feedback\<close> returns; \<open>term_of ops tot cnt\<close>
  is the product \<^verbatim>\<open>p * math.log2(p)\<close> that the loop subtracts for a class of \<open>cnt\<close>
  candidates out of \<open>tot\<close>; \<open>entropy_of ops candidates word\<close> is the value
  \<open>calculate_entropy\<close> returns.
\<close>

definition tally :: "string list \<Rightarrow> (string \<times> nat) list \<Rightarrow> (string \<times> nat) list" where
  "tally fs pattern_counts =
     fold (\<lambda>f pc. AList.update f (get_count pc f + 1) pc) fs pattern_counts"

definition pattern_of :: "string \<Rightarrow> string \<Rightarrow> string" where
  "pattern_of guess target = (case feedback guess target of Inr f \<Rightarrow> f | Inl e \<Rightarrow> [])"

definition term_of :: "float_ops \<Rightarrow> nat \<Rightarrow> nat \<Rightarrow> real" where
  "term_of ops tot cnt = fmul ops (fdiv ops cnt tot) (flog2 ops (fdiv ops cnt tot))"

definition entropy_of :: "float_ops \<Rightarrow> string list \<Rightarrow> string \<Rightarrow> real" where
  "entropy_of ops candidates word =
     (case calculate_entropy ops word candidates of Inr e \<Rightarrow> e | Inl x \<Rightarrow> 0)"

text \<open>
  What the proofs use of the arithmetic, for candidate lists of at most \<open>N\<close> words: the
  quotient of a class size by the list size is positive; the product \<open>p * log2 p\<close> of
  such a quotient is not positive, and is 0 only for the class that holds all candidates;
  subtracting a number that is not positive from one that is not negative does not make
  it smaller, and gives 0 only from 0 and 0. The arithmetic without rounding has these
  properties for every \<open>N\<close> (lemma \<open>sound_rounding_exact\<close>). So do IEEE doubles for
  every list a machine can hold: a quotient of integers below \<open>2^53\<close> rounds neither
  to 0 nor, from below, to 1; the logarithm of a double below 1 is negative; and the
  products and sums of the loop are far from underflow.
\<close>

definition sound_rounding :: "float_ops \<Rightarrow> nat \<Rightarrow> bool" where
  "sound_rounding ops N =
     ((\<forall>cnt tot. 0 < cnt \<and> cnt \<le> tot \<and> tot \<le> N \<longrightarrow>
         0 < fdiv ops cnt tot \<and> term_of ops tot cnt \<le> 0 \<and>
         ((term_of ops tot cnt = 0) = (cnt = tot))) \<and>
      (\<forall>e x. 0 \<le> e \<and> x \<le> 0 \<longrightarrow>
         e \<le> fsub ops e x \<and> ((fsub ops e x = 0) = (e = 0 \<and> x = 0))))"

section \<open>The two passes of feedback\<close>

declare first_pass.simps [simp del] find_unused.simps [simp del] second_pass.simps [simp del]

lemma first_pass_closed:
  "length guess \<le> length target \<Longrightarrow> length fb = length guess \<Longrightarrow> length used = length target \<Longrightarrow>
   first_pass guess target i (fb, used) =
     Inr (map (\<lambda>k. if i \<le> k \<and> guess ! k = target ! k then CHR ''g'' else fb ! k) [0..<length guess],
          map (\<lambda>k. if i \<le> k \<and> k < length guess \<and> guess ! k = target ! k then True else used ! k) [0..<length target])"
proof (induction guess target i "(fb, used)" arbitrary: fb used rule: first_pass.induct)
  case (1 guess target i fb used)
  show ?case
  proof (cases "i < length guess")
    case False
    have a: "map (\<lambda>k. if i \<le> k \<and> guess ! k = target ! k then CHR ''g'' else fb ! k) [0..<length guess] = fb"
      using False "1.prems" by (intro nth_equalityI) auto
    have b: "map (\<lambda>k. if i \<le> k \<and> k < length guess \<and> guess ! k = target ! k then True else used ! k) [0..<length target] = used"
      using False "1.prems" by (intro nth_equalityI) auto
    show ?thesis using False by (subst first_pass.simps) (simp add: a b)
  next
    case True
    then have lt: "\<not> length target \<le> i" using "1.prems" by simp
    show ?thesis
    proof (cases "guess ! i = target ! i")
      case eq: True
      have "first_pass guess target i (fb, used) = first_pass guess target (Suc i) (fb[i := CHR ''g''], used[i := True])"
        using True lt eq by (subst first_pass.simps) simp
      also have "\<dots> = Inr (map (\<lambda>k. if Suc i \<le> k \<and> guess ! k = target ! k then CHR ''g'' else fb[i := CHR ''g''] ! k) [0..<length guess],
          map (\<lambda>k. if Suc i \<le> k \<and> k < length guess \<and> guess ! k = target ! k then True else used[i := True] ! k) [0..<length target])"
        using "1.hyps"(1)[OF True lt eq] "1.prems" by simp
      also have "map (\<lambda>k. if Suc i \<le> k \<and> guess ! k = target ! k then CHR ''g'' else fb[i := CHR ''g''] ! k) [0..<length guess]
           = map (\<lambda>k. if i \<le> k \<and> guess ! k = target ! k then CHR ''g'' else fb ! k) [0..<length guess]"
        using True eq "1.prems" by (intro nth_equalityI) (auto simp: nth_list_update)
      also have "map (\<lambda>k. if Suc i \<le> k \<and> k < length guess \<and> guess ! k = target ! k then True else used[i := True] ! k) [0..<length target]
           = map (\<lambda>k. if i \<le> k \<and> k < length guess \<and> guess ! k = target ! k then True else used ! k) [0..<length target]"
        using True eq "1.prems" by (intro nth_equalityI) (auto simp: nth_list_update)
      finally show ?thesis .
    next
      case ne: False
      have "first_pass guess target i (fb, used) = first_pass guess target (Suc i) (fb, used)"
        using True lt ne by (subst first_pass.simps) simp
      also have "\<dots> = Inr (map (\<lambda>k. if Suc i \<le> k \<and> guess ! k = target ! k then CHR ''g'' else fb ! k) [0..<length guess],
          map (\<lambda>k. if Suc i \<le> k \<and> k < length guess \<and> guess ! k = target ! k then True else used ! k) [0..<length target])"
        using "1.hyps"(2)[OF True lt ne] "1.prems" by simp
      also have "map (\<lambda>k. if Suc i \<le> k \<and> guess ! k = target ! k then CHR ''g'' else fb ! k) [0..<length guess]
           = map (\<lambda>k. if i \<le> k \<and> guess ! k = target ! k then CHR ''g'' else fb ! k) [0..<length guess]"
        using True ne "1.prems" by (intro nth_equalityI) (auto simp: Suc_le_eq le_less)
      also have "map (\<lambda>k. if Suc i \<le> k \<and> k < length guess \<and> guess ! k = target ! k then True else used ! k) [0..<length target]
           = map (\<lambda>k. if i \<le> k \<and> k < length guess \<and> guess ! k = target ! k then True else used ! k) [0..<length target]"
        using True ne "1.prems" by (intro nth_equalityI) (auto simp: Suc_le_eq le_less)
      finally show ?thesis .
    qed
  qed
qed

lemma first_pass_short:
  "length target < length guess \<Longrightarrow> i \<le> length target \<Longrightarrow> first_pass guess target i s = Inl IndexError"
proof (induction guess target i s rule: first_pass.induct)
  case (1 guess target i fb used)
  show ?case
  proof (cases "i = length target")
    case True
    then show ?thesis using "1.prems" by (subst first_pass.simps) simp
  next
    case False
    then have "i < length target" "i < length guess" using "1.prems" by auto
    then show ?thesis using "1.IH" "1.prems" by (subst first_pass.simps) auto
  qed
qed

lemma find_unused_Some:
  "find_unused c target used j = Some j' \<Longrightarrow> j' < length target \<and> \<not> used ! j' \<and> c = target ! j'"
proof (induction c target used j rule: find_unused.induct)
  case (1 c target used j)
  then show ?case
    by (subst (asm) find_unused.simps) (auto split: if_splits)
qed

lemma finite_marked_at [simp]: "finite (marked_at guess fb L)"
  by (simp add: marked_at_def)

lemma finite_used_at [simp]: "finite (used_at target used L)"
  by (simp add: used_at_def)

lemma marked_at_update:
  assumes "i < length guess" "length fb = length guess" "fb ! i \<noteq> CHR ''g''" "fb ! i \<noteq> CHR ''y''"
  shows "marked_at guess (fb[i := CHR ''y'']) L =
           (if guess ! i = L then insert i (marked_at guess fb L) else marked_at guess fb L)"
    and "i \<notin> marked_at guess fb L"
  using assms by (auto simp: marked_at_def nth_list_update)

lemma used_at_update:
  assumes "j < length target" "length used = length target" "\<not> used ! j"
  shows "used_at target (used[j := True]) L =
           (if target ! j = L then insert j (used_at target used L) else used_at target used L)"
    and "j \<notin> used_at target used L"
  using assms by (auto simp: used_at_def nth_list_update)

lemma second_pass_inv:
  assumes "length fb = length guess" "length used = length target"
    and "\<forall>k. i \<le> k \<and> k < length guess \<longrightarrow> fb ! k \<noteq> CHR ''y''"
    and "\<forall>L. card (marked_at guess fb L) = card (used_at target used L)"
  shows "\<exists>fb' used'. second_pass guess target i (fb, used) = (fb', used') \<and>
           length fb' = length guess \<and> length used' = length target \<and>
           (\<forall>L. card (marked_at guess fb' L) = card (used_at target used' L)) \<and>
           (\<forall>k<length guess. (fb' ! k = CHR ''g'') = (fb ! k = CHR ''g''))"
  using assms
proof (induction guess target i "(fb, used)" arbitrary: fb used rule: second_pass.induct)
  case (1 guess target i fb used)
  show ?case
  proof (cases "i < length guess")
    case False
    then show ?thesis using "1.prems" by (subst second_pass.simps) simp
  next
    case True
    show ?thesis
    proof (cases "fb ! i = CHR ''g''")
      case g: True
      have "\<forall>k. Suc i \<le> k \<and> k < length guess \<longrightarrow> fb ! k \<noteq> CHR ''y''"
        using "1.prems"(3) by auto
      from "1.hyps"(1)[OF True g "1.prems"(1,2) this "1.prems"(4)]
      show ?thesis using True g by (subst second_pass.simps) simp
    next
      case ng: False
      have ny: "fb ! i \<noteq> CHR ''y''" using "1.prems"(3) True by auto
      show ?thesis
      proof (cases "find_unused (guess ! i) target used 0")
        case None
        have "\<forall>k. Suc i \<le> k \<and> k < length guess \<longrightarrow> fb ! k \<noteq> CHR ''y''"
          using "1.prems"(3) by auto
        from "1.hyps"(2)[OF True ng None "1.prems"(1,2) this "1.prems"(4)]
        show ?thesis using True ng None by (subst second_pass.simps) simp
      next
        case (Some j)
        from find_unused_Some[OF Some]
        have j: "j < length target" "\<not> used ! j" "guess ! i = target ! j" by auto
        let ?fb = "fb[i := CHR ''y'']" and ?used = "used[j := True]"
        have a: "length ?fb = length guess" "length ?used = length target"
          using "1.prems" by auto
        have b: "\<forall>k. Suc i \<le> k \<and> k < length guess \<longrightarrow> ?fb ! k \<noteq> CHR ''y''"
          using "1.prems"(3) by (auto simp: nth_list_update)
        have c: "\<forall>L. card (marked_at guess ?fb L) = card (used_at target ?used L)"
        proof
          fix L
          show "card (marked_at guess ?fb L) = card (used_at target ?used L)"
            using marked_at_update[OF True "1.prems"(1) ng ny, of L]
              used_at_update[OF j(1) "1.prems"(2) j(2), of L] j(3) "1.prems"(4)
            by (auto simp: card_insert_if)
        qed
        from "1.hyps"(3)[OF True ng Some a b c]
        obtain fb' used' where r: "second_pass guess target (Suc i) (?fb, ?used) = (fb', used')"
          "length fb' = length guess" "length used' = length target"
          "\<forall>L. card (marked_at guess fb' L) = card (used_at target used' L)"
          "\<forall>k<length guess. (fb' ! k = CHR ''g'') = (?fb ! k = CHR ''g'')"
          by blast
        have "(?fb ! k = CHR ''g'') = (fb ! k = CHR ''g'')" for k
          using ng True "1.prems"(1) by (cases "k = i") (simp_all add: nth_list_update)
        with r(5) have "\<forall>k<length guess. (fb' ! k = CHR ''g'') = (fb ! k = CHR ''g'')"
          by simp
        then show ?thesis using True ng Some r by (subst second_pass.simps) simp
      qed
    qed
  qed
qed

lemma count_list_card: "count_list xs x = card {j. j < length xs \<and> xs ! j = x}"
proof -
  have "count_list xs x = length (filter ((=) x) xs)"
    by (simp add: count_list_eq_length_filter)
  also have "\<dots> = card {j. j < length xs \<and> x = xs ! j}"
    by (rule length_filter_conv_card)
  also have "{j. j < length xs \<and> x = xs ! j} = {j. j < length xs \<and> xs ! j = x}"
    by auto
  finally show ?thesis .
qed

lemma used_at_le_count: "card (used_at target used L) \<le> count_list target L"
  unfolding count_list_card used_at_def
  by (rule card_mono) auto

lemma marked_positions_card:
  assumes "length fb = length guess"
  shows "length (filter (\<lambda>(c, m). c = L \<and> (m = CHR ''g'' \<or> m = CHR ''y'')) (zip guess fb))
           = card (marked_at guess fb L)"
proof -
  have "{i. i < length (zip guess fb) \<and> (case zip guess fb ! i of (c, m) \<Rightarrow> c = L \<and> (m = CHR ''g'' \<or> m = CHR ''y''))}
          = marked_at guess fb L"
    using assms by (auto simp: marked_at_def)
  then show ?thesis by (simp add: length_filter_conv_card)
qed

lemma feedback_props:
  assumes le: "length guess \<le> length target"
  shows "\<exists>fb. feedback guess target = Inr fb \<and> length fb = length guess \<and>
           (\<forall>k<length guess. (fb ! k = CHR ''g'') = (guess ! k = target ! k)) \<and>
           (\<forall>L. card (marked_at guess fb L) \<le> count_list target L)"
proof -
  let ?fb1 = "map (\<lambda>k. if 0 \<le> k \<and> guess ! k = target ! k then CHR ''g'' else replicate (length guess) CHR ''b'' ! k) [0..<length guess]"
  let ?used1 = "map (\<lambda>k. if 0 \<le> k \<and> k < length guess \<and> guess ! k = target ! k then True else replicate (length target) False ! k) [0..<length target]"
  have p1: "first_pass guess target 0 (replicate (length guess) CHR ''b'', replicate (length target) False)
              = Inr (?fb1, ?used1)"
    by (rule first_pass_closed) (use le in simp_all)
  have l1: "length ?fb1 = length guess" "length ?used1 = length target" by simp_all
  have g1: "(?fb1 ! k = CHR ''g'') = (guess ! k = target ! k)" if "k < length guess" for k
    using that by simp
  have y1: "\<forall>k. 0 \<le> k \<and> k < length guess \<longrightarrow> ?fb1 ! k \<noteq> CHR ''y''"
    by simp
  have c1: "\<forall>L. card (marked_at guess ?fb1 L) = card (used_at target ?used1 L)"
  proof
    fix L
    have "marked_at guess ?fb1 L = used_at target ?used1 L"
      using le by (auto simp: marked_at_def used_at_def split: if_splits)
    then show "card (marked_at guess ?fb1 L) = card (used_at target ?used1 L)" by simp
  qed
  from second_pass_inv[OF l1 y1 c1]
  obtain fb' used' where r: "second_pass guess target 0 (?fb1, ?used1) = (fb', used')"
    "length fb' = length guess" "length used' = length target"
    "\<forall>L. card (marked_at guess fb' L) = card (used_at target used' L)"
    "\<forall>k<length guess. (fb' ! k = CHR ''g'') = (?fb1 ! k = CHR ''g'')"
    by blast
  have fb: "feedback guess target = Inr fb'"
    unfolding feedback_def p1 using r(1) by simp
  have "\<forall>k<length guess. (fb' ! k = CHR ''g'') = (guess ! k = target ! k)"
    using r(5) g1 by simp
  moreover have "\<forall>L. card (marked_at guess fb' L) \<le> count_list target L"
    using r(4) used_at_le_count by simp
  ultimately show ?thesis using fb r(2) by blast
qed

lemma feedback_short: "length target < length guess \<Longrightarrow> feedback guess target = Inl IndexError"
  by (simp add: feedback_def first_pass_short)

lemma feedback_total: "length guess \<le> length target \<Longrightarrow> \<exists>fb. feedback guess target = Inr fb"
  using feedback_props by blast

lemma feedback_all_green:
  assumes "length guess = length target"
  shows "(feedback guess target = Inr (replicate (length guess) CHR ''g'')) = (guess = target)"
proof -
  from feedback_props[of guess target] assms
  obtain fb where fb: "feedback guess target = Inr fb" "length fb = length guess"
    "\<forall>k<length guess. (fb ! k = CHR ''g'') = (guess ! k = target ! k)"
    by auto
  have "(fb = replicate (length guess) CHR ''g'') = (\<forall>k<length guess. fb ! k = CHR ''g'')"
    using fb(2) by (auto simp: list_eq_iff_nth_eq)
  also have "\<dots> = (\<forall>k<length guess. guess ! k = target ! k)"
    using fb(3) by simp
  also have "\<dots> = (guess = target)"
    using assms by (auto simp: list_eq_iff_nth_eq)
  finally show ?thesis using fb(1) by simp
qed


section \<open>The filter\<close>

lemma filter_candidates_Inr:
  "\<forall>w\<in>set candidates. length guess \<le> length w \<Longrightarrow>
   filter_candidates candidates guess fb = Inr (filter (\<lambda>w. feedback guess w = Inr fb) candidates)"
proof (induction candidates)
  case Nil
  show ?case by simp
next
  case (Cons word rest)
  from Cons.prems obtain f where f: "feedback guess word = Inr f"
    using feedback_total[of guess word] by auto
  from Cons have "filter_candidates rest guess fb = Inr (filter (\<lambda>w. feedback guess w = Inr fb) rest)"
    by simp
  with f show ?case by simp
qed

lemma filter_candidates_short:
  "\<exists>w\<in>set candidates. length w < length guess \<Longrightarrow>
   filter_candidates candidates guess fb = Inl IndexError"
proof (induction candidates)
  case Nil
  then show ?case by simp
next
  case (Cons word rest)
  show ?case
  proof (cases "length word < length guess")
    case True
    then show ?thesis by (simp add: feedback_short)
  next
    case False
    then obtain f where f: "feedback guess word = Inr f"
      using feedback_total[of guess word] by auto
    from False Cons have "filter_candidates rest guess fb = Inl IndexError" by auto
    with f show ?thesis by simp
  qed
qed

section \<open>The pattern counts and the entropy\<close>

lemma count_patterns_tally:
  "\<forall>c\<in>set candidates. length guess \<le> length c \<Longrightarrow>
   count_patterns guess candidates pc = Inr (tally (map (pattern_of guess) candidates) pc)"
proof (induction candidates arbitrary: pc)
  case Nil
  show ?case by (simp add: tally_def)
next
  case (Cons target rest)
  from Cons.prems obtain f where f: "feedback guess target = Inr f"
    using feedback_total[of guess target] by auto
  then have p: "pattern_of guess target = f" by (simp add: pattern_of_def)
  from Cons show ?case using f p by (simp add: tally_def)
qed

lemma get_count_update:
  "get_count (AList.update f v pc) f' = (if f' = f then v else get_count pc f')"
  by (simp add: get_count_def update_conv')

lemma tally_distinct: "distinct (map fst pc) \<Longrightarrow> distinct (map fst (tally fs pc))"
  unfolding tally_def by (induction fs arbitrary: pc) (simp_all add: distinct_update)

lemma tally_keys: "fst ` set (tally fs pc) = fst ` set pc \<union> set fs"
  unfolding tally_def by (induction fs arbitrary: pc) (auto simp: dom_update)

lemma tally_get_count: "get_count (tally fs pc) f = get_count pc f + count_list fs f"
  unfolding tally_def by (induction fs arbitrary: pc) (simp_all add: get_count_update)

lemma get_count_distinct:
  "distinct (map fst pc) \<Longrightarrow> (f, c) \<in> set pc \<Longrightarrow> get_count pc f = c"
  by (simp add: get_count_def)

lemma tally_values:
  assumes "(f, c) \<in> set (tally fs [])"
  shows "c = count_list fs f" and "f \<in> set fs"
proof -
  have d: "distinct (map fst (tally fs []))" by (rule tally_distinct) simp
  have "get_count [] f = 0" by (simp add: get_count_def)
  then have "get_count (tally fs []) f = count_list fs f"
    by (simp only: tally_get_count)
  with get_count_distinct[OF d assms] show "c = count_list fs f"
    by simp
  from assms have "f \<in> fst ` set (tally fs [])" by force
  then show "f \<in> set fs" by (simp add: tally_keys)
qed

lemma tally_snd: "map snd (tally fs []) = map (count_list fs) (map fst (tally fs []))"
proof -
  have "snd x = count_list fs (fst x)" if "x \<in> set (tally fs [])" for x
    using tally_values(1)[of "fst x" "snd x" fs] that by simp
  then show ?thesis by simp
qed

lemma tally_sum: "sum_list (map snd (tally fs [])) = length fs"
proof -
  have d: "distinct (map fst (tally fs []))" by (rule tally_distinct) simp
  have k: "set (map fst (tally fs [])) = set fs"
    using tally_keys[of fs "[]"] by simp
  have "sum_list (map snd (tally fs [])) = sum_list (map (count_list fs) (map fst (tally fs [])))"
    by (simp only: tally_snd[symmetric])
  also have "\<dots> = sum (count_list fs) (set (map fst (tally fs [])))"
    using d by (rule sum_list_distinct_conv_sum_set)
  also have "\<dots> = length fs"
    unfolding k by (rule sum_count_set) simp_all
  finally show ?thesis .
qed

lemma tally_length: "length (tally fs []) = card (set fs)"
proof -
  have d: "distinct (map fst (tally fs []))" by (rule tally_distinct) simp
  have k: "set (map fst (tally fs [])) = set fs"
    using tally_keys[of fs "[]"] by simp
  from distinct_card[OF d] k show ?thesis by simp
qed

lemma tally_positive: "c \<in> set (map snd (tally fs [])) \<Longrightarrow> 0 < c \<and> c \<le> length fs"
proof -
  assume "c \<in> set (map snd (tally fs []))"
  then obtain f where fc: "(f, c) \<in> set (tally fs [])" by auto
  from tally_values[OF fc] have "c = count_list fs f" "f \<in> set fs" by auto
  moreover from \<open>f \<in> set fs\<close> have "count_list fs f \<noteq> 0"
    by (simp add: count_list_0_iff)
  ultimately show ?thesis using count_le_length[of fs f] by simp
qed


lemma log2_eq_0_iff:
  fixes x :: real
  assumes "0 < x"
  shows "(log 2 x = 0) = (x = 1)"
proof -
  have "(0 < log 2 x) = (1 < x)" "(log 2 x < 0) = (x < 1)"
    using assms by simp_all
  then show ?thesis by linarith
qed

lemma exact_term:
  assumes "0 < c" "c \<le> tot"
  shows "0 < real c / real tot"
    and "real c / real tot * log 2 (real c / real tot) \<le> 0"
    and "(real c / real tot * log 2 (real c / real tot) = 0) = (c = tot)"
proof -
  let ?p = "real c / real tot"
  have tot: "0 < tot" using assms by simp
  show p: "0 < ?p" using assms by simp
  have p1: "?p \<le> 1" using assms by simp
  then have l: "log 2 ?p \<le> 0" using p by simp
  show "?p * log 2 ?p \<le> 0"
    by (rule mult_nonneg_nonpos) (use p l in simp_all)
  have "?p \<noteq> 0" using p by (metis less_irrefl)
  then have "(?p * log 2 ?p = 0) = (log 2 ?p = 0)"
    by (simp only: mult_eq_0_iff) simp
  also have "\<dots> = (?p = 1)" using p by (rule log2_eq_0_iff)
  also have "\<dots> = (c = tot)" using tot by auto
  finally show "(?p * log 2 ?p = 0) = (c = tot)" .
qed

lemma sound_rounding_exact: "sound_rounding exact_arith N"
proof -
  have a: "0 < fdiv exact_arith cnt tot \<and> term_of exact_arith tot cnt \<le> 0 \<and>
         ((term_of exact_arith tot cnt = 0) = (cnt = tot))"
    if "0 < cnt \<and> cnt \<le> tot \<and> tot \<le> N" for cnt tot
    using exact_term[of cnt tot] that by (simp add: exact_arith_def term_of_def)
  have b: "e \<le> fsub exact_arith e x \<and> ((fsub exact_arith e x = 0) = (e = 0 \<and> x = 0))"
    if "0 \<le> e \<and> x \<le> 0" for e x :: real
    using that by (auto simp: exact_arith_def)
  show ?thesis unfolding sound_rounding_def using a b by blast
qed

lemma sound_rounding_term:
  assumes "sound_rounding ops N" "0 < cnt" "cnt \<le> tot" "tot \<le> N"
  shows "0 < fdiv ops cnt tot" and "term_of ops tot cnt \<le> 0"
    and "(term_of ops tot cnt = 0) = (cnt = tot)"
  using assms unfolding sound_rounding_def by blast+

lemma sound_rounding_sub:
  assumes "sound_rounding ops N" "0 \<le> e" "x \<le> 0"
  shows "e \<le> fsub ops e x" and "(fsub ops e x = 0) = (e = 0 \<and> x = 0)"
  using assms unfolding sound_rounding_def by blast+

lemma entropy_sum_value:
  assumes s: "sound_rounding ops N" and tot: "0 < tot" "tot \<le> N"
  shows "\<forall>c\<in>set counts. 0 < c \<and> c \<le> tot \<Longrightarrow> 0 \<le> e \<Longrightarrow>
         \<exists>r. entropy_sum ops tot counts e = Inr r \<and> e \<le> r \<and>
             ((r = 0) = (e = 0 \<and> (\<forall>c\<in>set counts. c = tot)))"
proof (induction counts arbitrary: e)
  case Nil
  then show ?case by simp
next
  case (Cons c rest)
  from Cons.prems have c: "0 < c" "c \<le> tot" by simp_all
  note t = sound_rounding_term[OF s c tot(2)]
  let ?e = "fsub ops e (term_of ops tot c)"
  note u = sound_rounding_sub[OF s Cons.prems(2) t(2)]
  have step: "entropy_sum ops tot (c # rest) e = entropy_sum ops tot rest ?e"
    using tot(1) t(1) by (simp add: Let_def term_of_def not_le)
  have e': "0 \<le> ?e" using u(1) Cons.prems(2) by simp
  from Cons.IH[OF _ e'] Cons.prems(1)
  obtain r where r: "entropy_sum ops tot rest ?e = Inr r" "?e \<le> r"
    "(r = 0) = (?e = 0 \<and> (\<forall>c\<in>set rest. c = tot))" by auto
  have "e \<le> r" using u(1) r(2) by simp
  moreover have "(r = 0) = (e = 0 \<and> (\<forall>c\<in>set (c # rest). c = tot))"
    using r(3) u(2) t(3) by auto
  ultimately show ?case using step r(1) by simp
qed

lemma all_full_iff_single:
  fixes counts :: "nat list"
  assumes "sum_list counts = tot" "0 < tot"
  shows "(\<forall>c\<in>set counts. c = tot) = (length counts = 1)"
proof
  assume a: "\<forall>c\<in>set counts. c = tot"
  then have "counts = replicate (length counts) tot"
    by (simp add: replicate_length_same)
  then have "sum_list counts = length counts * tot"
    by (metis sum_list_replicate of_nat_id)
  with assms show "length counts = 1" by simp
next
  assume "length counts = 1"
  then obtain c where "counts = [c]" by (cases counts) auto
  with assms show "\<forall>c\<in>set counts. c = tot" by simp
qed

lemma card_one_iff_all_equal:
  assumes "xs \<noteq> []"
  shows "(card (set xs) = 1) = (\<forall>a\<in>set xs. \<forall>b\<in>set xs. a = b)"
proof
  assume "card (set xs) = 1"
  then obtain x where "set xs = {x}" by (auto simp: card_1_singleton_iff)
  then show "\<forall>a\<in>set xs. \<forall>b\<in>set xs. a = b" by simp
next
  assume a: "\<forall>a\<in>set xs. \<forall>b\<in>set xs. a = b"
  from assms obtain x where "x \<in> set xs" by (cases xs) auto
  with a have "set xs = {x}" by auto
  then show "card (set xs) = 1" by simp
qed

lemma calculate_entropy_value:
  assumes s: "sound_rounding ops N" and n: "length candidates \<le> N"
    and ne: "candidates \<noteq> []" and le: "\<forall>c\<in>set candidates. length guess \<le> length c"
  shows "\<exists>e. calculate_entropy ops guess candidates = Inr e \<and> 0 \<le> e \<and>
           ((e = 0) = (\<forall>a\<in>set candidates. \<forall>b\<in>set candidates. pattern_of guess a = pattern_of guess b))"
proof -
  let ?fs = "map (pattern_of guess) candidates"
  let ?counts = "map snd (tally ?fs [])"
  let ?tot = "length candidates"
  have tot: "0 < ?tot" using ne by simp
  have cp: "count_patterns guess candidates [] = Inr (tally ?fs [])"
    using le by (rule count_patterns_tally)
  have pos: "\<forall>c\<in>set ?counts. 0 < c \<and> c \<le> ?tot"
    using tally_positive[of _ ?fs] by simp
  from entropy_sum_value[OF s tot n pos, of 0]
  obtain r where r: "entropy_sum ops ?tot ?counts 0 = Inr r" "0 \<le> r"
    "(r = 0) = (\<forall>c\<in>set ?counts. c = ?tot)" by auto
  have e: "calculate_entropy ops guess candidates = Inr r"
    using r(1) cp by (simp add: calculate_entropy_def)
  have "(r = 0) = (\<forall>c\<in>set ?counts. c = ?tot)" by (rule r(3))
  also have "\<dots> = (length ?counts = 1)"
    by (rule all_full_iff_single) (use tally_sum[of ?fs] tot in simp_all)
  also have "\<dots> = (card (set ?fs) = 1)"
    by (simp add: tally_length)
  also have "\<dots> = (\<forall>a\<in>set ?fs. \<forall>b\<in>set ?fs. a = b)"
    by (rule card_one_iff_all_equal) (use ne in simp)
  also have "\<dots> = (\<forall>a\<in>set candidates. \<forall>b\<in>set candidates. pattern_of guess a = pattern_of guess b)"
    by auto
  finally show ?thesis using e r(2) by blast
qed

lemma pattern_of_eq:
  "length guess \<le> length a \<Longrightarrow> length guess \<le> length b \<Longrightarrow>
   (pattern_of guess a = pattern_of guess b) = (feedback guess a = feedback guess b)"
  using feedback_total[of guess a] feedback_total[of guess b]
  by (auto simp: pattern_of_def)

section \<open>The ranking\<close>

lemma calculate_entropy_total:
  assumes "sound_rounding ops N" "length candidates \<le> N"
    and "\<forall>c\<in>set candidates. length guess \<le> length c"
  shows "calculate_entropy ops guess candidates = Inr (entropy_of ops candidates guess)"
proof (cases "candidates = []")
  case True
  then show ?thesis by (simp add: entropy_of_def calculate_entropy_def)
next
  case False
  from calculate_entropy_value[OF assms(1,2) False assms(3)]
  obtain e where "calculate_entropy ops guess candidates = Inr e" by blast
  then show ?thesis by (simp add: entropy_of_def)
qed

lemma entropies_of_Inr:
  assumes "sound_rounding ops N" "length candidates \<le> N"
  shows "\<forall>w\<in>set pool. \<forall>c\<in>set candidates. length w \<le> length c \<Longrightarrow>
   entropies_of ops candidates pool = Inr (map (\<lambda>w. (w, entropy_of ops candidates w)) pool)"
proof (induction pool)
  case Nil
  show ?case by simp
next
  case (Cons word rest)
  then have "calculate_entropy ops word candidates = Inr (entropy_of ops candidates word)"
    by (intro calculate_entropy_total[OF assms]) simp
  moreover from Cons have "entropies_of ops candidates rest
      = Inr (map (\<lambda>w. (w, entropy_of ops candidates w)) rest)"
    by simp
  ultimately show ?case by simp
qed

lemma sort_descending:
  fixes xs :: "('a \<times> real) list"
  shows "sorted_wrt (\<lambda>a b. snd b \<le> snd a) (sort_key (\<lambda>x. - snd x) xs)"
proof -
  have "sorted (map (\<lambda>x. - snd x) (sort_key (\<lambda>x. - snd x) xs))"
    by (rule sorted_sort_key)
  then show ?thesis by (simp add: sorted_map)
qed

lemma sort_ties:
  fixes xs :: "('a \<times> real) list"
  shows "filter (\<lambda>x. snd x = e) (sort_key (\<lambda>x. - snd x) xs) = filter (\<lambda>x. snd x = e) xs"
proof -
  have "filter (\<lambda>y. - snd y = - e) (sort_key (\<lambda>x. - snd x) xs) = filter (\<lambda>y. - snd y = - e) xs"
    by (rule sort_key_stable)
  then show ?thesis by simp
qed


section \<open>The solving loop\<close>

lemma rank_guesses_top:
  assumes "sound_rounding ops N" "length candidates \<le> N"
    and "candidates \<noteq> []" and "\<forall>c\<in>set candidates. length c = n"
  shows "\<exists>guess ent. rank_guesses ops candidates candidates 1 = Inr [(guess, ent)] \<and> guess \<in> set candidates"
proof -
  let ?entropies = "map (\<lambda>w. (w, entropy_of ops candidates w)) candidates"
  let ?ranked = "sort_key (\<lambda>x. - snd x) ?entropies"
  have "\<forall>w\<in>set candidates. \<forall>c\<in>set candidates. length w \<le> length c"
    using assms(4) by simp
  then have r: "rank_guesses ops candidates candidates 1 = Inr (take 1 ?ranked)"
    using entropies_of_Inr[OF assms(1,2), of candidates] by (simp add: rank_guesses_def slice_to_def)
  have "length ?ranked = length candidates" by simp
  with assms(3) obtain x xs where x: "?ranked = x # xs" by (cases ?ranked) auto
  have "x \<in> set ?ranked" using x by simp
  then have "x \<in> set ?entropies" by simp
  then have "fst x \<in> set candidates" by auto
  moreover have "take 1 ?ranked = [(fst x, snd x)]" using x by simp
  ultimately show ?thesis using r by metis
qed

lemma load_vocab_lengths:
  "load_vocab all_words len = Some full_vocab \<Longrightarrow> w \<in> set full_vocab \<Longrightarrow> int (length w) = len"
  by (auto simp: load_vocab_def split: if_splits dest: in_set_takeD)

lemma load_vocab_keys:
  "(load_vocab all_words len = None) = (len < MIN_LEN \<or> MAX_LEN < len)"
  by (auto simp: load_vocab_def)

lemma load_vocab_Some:
  "load_vocab all_words len = Some full_vocab \<Longrightarrow> MIN_LEN \<le> len \<and> len \<le> MAX_LEN"
  by (auto simp: load_vocab_def split: if_splits)

lemma solve_loop_solves:
  assumes s: "sound_rounding ops N"
  shows "length candidates \<le> N \<Longrightarrow> \<forall>c\<in>set candidates. int (length c) = len \<Longrightarrow>
         target \<in> set candidates \<Longrightarrow>
         \<exists>n. solve_loop ops len target candidates turns = Some (Inr (Solved n)) \<and>
             turns < n \<and> n \<le> turns + length candidates"
proof (induction "length candidates" arbitrary: candidates turns rule: less_induct)
  case less
  have ne: "candidates \<noteq> []" using less.prems(3) by auto
  have len: "\<forall>c\<in>set candidates. length c = nat len" using less.prems(2) by auto
  from rank_guesses_top[OF s less.prems(1) ne len]
  obtain guess ent where r: "rank_guesses ops candidates candidates 1 = Inr [(guess, ent)]"
    and g: "guess \<in> set candidates" by blast
  have lg: "length guess = nat len" using len g by simp
  have lt: "length target = nat len" using len less.prems(3) by simp
  obtain fb where fb: "feedback guess target = Inr fb"
    using feedback_total[of guess target] lg lt by auto
  show ?case
  proof (cases "fb = replicate (nat len) CHR ''g''")
    case True
    have "solve_loop ops len target candidates turns = Some (Inr (Solved (turns + 1)))"
      using r fb True by (subst solve_loop.simps) simp
    moreover have "1 \<le> length candidates" using ne by (cases candidates) simp_all
    ultimately show ?thesis by simp
  next
    case False
    let ?cs = "filter (\<lambda>w. feedback guess w = Inr fb) candidates"
    have f: "filter_candidates candidates guess fb = Inr ?cs"
      by (rule filter_candidates_Inr) (use len lg in simp)
    have t: "target \<in> set ?cs" using less.prems(3) fb by simp
    then have ne': "?cs \<noteq> []" by (metis empty_iff empty_set)
    have "feedback guess guess = Inr (replicate (length guess) CHR ''g'')"
      using feedback_all_green[of guess guess] by simp
    then have "feedback guess guess \<noteq> Inr fb" using False lg by auto
    then have shorter: "length ?cs < length candidates"
      using g by (intro length_filter_less) auto
    then have n': "length ?cs \<le> N" using less.prems(1) by simp
    have "\<forall>c\<in>set ?cs. int (length c) = len" using less.prems(2) by simp
    from less.hyps[OF shorter n' this t, of "turns + 1"]
    obtain n where n: "solve_loop ops len target ?cs (turns + 1) = Some (Inr (Solved n))"
      "turns + 1 < n" "n \<le> turns + 1 + length ?cs" by blast
    have "solve_loop ops len target candidates turns = solve_loop ops len target ?cs (turns + 1)"
      using r fb False f ne' by (subst solve_loop.simps) simp
    with n shorter show ?thesis by auto
  qed
qed

lemma play_wordle_valid_target:
  assumes "MIN_LEN \<le> len" "len \<le> MAX_LEN" "vocab len = Some full_vocab"
    and "target \<noteq> []" "int (length target) = len" "target \<in> set full_vocab"
  shows "play_wordle ops vocab rnd len (Some target) = solve_loop ops len target full_vocab 0"
  using assms by (simp add: play_wordle_def truthy_def)

lemma play_wordle_solves_length:
  assumes "sound_rounding ops N" "length full_vocab \<le> N"
    and "load_vocab all_words len = Some full_vocab" and "target \<in> set full_vocab"
  shows "\<exists>turns. play_wordle ops (load_vocab all_words) rnd len (Some target) = Some (Inr (Solved turns)) \<and>
           1 \<le> turns \<and> turns \<le> length full_vocab"
proof -
  have r: "MIN_LEN \<le> len" "len \<le> MAX_LEN" using load_vocab_Some[OF assms(3)] by simp_all
  have l: "\<forall>c\<in>set full_vocab. int (length c) = len"
    using load_vocab_lengths[OF assms(3)] by simp
  then have tl: "int (length target) = len" using assms(4) by simp
  then have tn: "target \<noteq> []" using r(1) by (auto simp: MIN_LEN_def)
  from solve_loop_solves[OF assms(1,2) l assms(4), of 0]
  obtain n where "solve_loop ops len target full_vocab 0 = Some (Inr (Solved n))" "0 < n" "n \<le> length full_vocab"
    by auto
  then show ?thesis
    using play_wordle_valid_target[of len "load_vocab all_words" full_vocab target ops rnd,
        OF r assms(3) tn tl assms(4)] by auto
qed

lemma play_wordle_empty_target:
  "play_wordle ops vocab rnd len (Some []) = play_wordle ops vocab rnd len None"
proof -
  have t: "truthy (Some []) = truthy None" by (simp add: truthy_def)
  show ?thesis unfolding play_wordle_def t by (rule refl)
qed

section \<open>Sessions computed in the arithmetic without rounding\<close>

lemma all_correct_5: "replicate 5 CHR ''g'' = ''ggggg''"
  by (simp add: eval_nat_numeral)

lemma feedback_apple: "feedback ''apple'' ''apple'' = Inr ''ggggg''"
  by (simp add: feedback_def first_pass.simps second_pass.simps find_unused.simps)

lemma rank_guesses_apple: "rank_guesses exact_arith [''apple''] [''apple''] 1 = Inr [(''apple'', 0)]"
  by (simp add: rank_guesses_def calculate_entropy_def feedback_apple get_count_def slice_to_def
      exact_arith_def)

lemma solve_loop_apple: "solve_loop exact_arith 5 ''apple'' [''apple''] 0 = Some (Inr (Solved 1))"
  by (subst solve_loop.simps) (simp add: rank_guesses_apple feedback_apple all_correct_5)

lemma load_vocab_apple:
  "load_vocab [''apple''] 5 = Some [''apple'']"
  "load_vocab [''apple''] 4 = Some []"
  "load_vocab [''apple''] 2 = None"
  by (simp_all add: load_vocab_def MIN_LEN_def MAX_LEN_def)

lemma log2_half: "log 2 (1 / 2) = - 1"
  by (simp add: log_divide)

lemma feedback_small:
  "feedback ''aaz'' ''aab'' = Inr ''ggb''" "feedback ''aaz'' ''aac'' = Inr ''ggb''"
  "feedback ''aab'' ''aab'' = Inr ''ggg''" "feedback ''aab'' ''aac'' = Inr ''ggb''"
  "feedback ''zzz'' ''aab'' = Inr ''bbb''" "feedback ''zzz'' ''aac'' = Inr ''bbb''"
  "feedback ''aac'' ''aab'' = Inr ''ggb''" "feedback ''aac'' ''aac'' = Inr ''ggg''"
  by (simp_all add: feedback_def first_pass.simps second_pass.simps find_unused.simps)

lemma calculate_entropy_small:
  "calculate_entropy exact_arith ''aaz'' [''aab'', ''aac''] = Inr 0"
  "calculate_entropy exact_arith ''aab'' [''aab'', ''aac''] = Inr 1"
  "calculate_entropy exact_arith ''zzz'' [''aab'', ''aac''] = Inr 0"
  "calculate_entropy exact_arith ''aac'' [''aab'', ''aac''] = Inr 1"
  by (simp_all add: calculate_entropy_def feedback_small get_count_def exact_arith_def log2_half)

lemma rank_guesses_small:
  "rank_guesses exact_arith [''aab'', ''aac''] [''aaz'', ''aab'', ''zzz'', ''aac''] 3
     = Inr [(''aab'', 1), (''aac'', 1), (''aaz'', 0)]"
  by (simp add: rank_guesses_def calculate_entropy_small slice_to_def)

section \<open>Properties\<close>

text \<open>
  C6. The worked example: \<^verbatim>\<open>feedback("arise", "raise")\<close> is \<^verbatim>\<open>"yyggg"\<close>, that is
  Present, Present, Correct, Correct, Correct.
\<close>

theorem feedback_arise_raise: "feedback ''arise'' ''raise'' = Inr ''yyggg''"
  by (simp add: feedback_def first_pass.simps second_pass.simps find_unused.simps)

text \<open>
  C2. The feedback contract: for words \<open>g\<close> and \<open>t\<close> of equal length, \<open>feedback g t\<close>
  returns a pattern (it raises nothing) of the length of \<open>g\<close>, and for every letter \<open>L\<close>
  the number of positions of \<open>g\<close> that hold \<open>L\<close> and are marked Correct (\<^verbatim>\<open>'g'\<close>) or
  Present (\<^verbatim>\<open>'y'\<close>) is at most the number of occurrences of \<open>L\<close> in \<open>t\<close>. The pattern
  is a function of the two words alone: the source reads no state and no random source.
\<close>

theorem feedback_contract:
  assumes "length g = length t"
  shows "\<exists>fb. feedback g t = Inr fb \<and> length fb = length g \<and>
           (\<forall>L. length (filter (\<lambda>(c, m). c = L \<and> (m = CHR ''g'' \<or> m = CHR ''y'')) (zip g fb))
                  \<le> count_list t L)"
proof -
  from feedback_props[of g t] assms
  obtain fb where fb: "feedback g t = Inr fb" "length fb = length g"
    "\<forall>L. card (marked_at g fb L) \<le> count_list t L"
    by auto
  then show ?thesis using marked_positions_card[OF fb(2)] by auto
qed

theorem feedback_contract_witness:
  "length ''speed'' = length ''erase'' \<and>
   (\<exists>fb. feedback ''speed'' ''erase'' = Inr fb \<and> length fb = length ''speed'' \<and>
           (\<forall>L. length (filter (\<lambda>(c, m). c = L \<and> (m = CHR ''g'' \<or> m = CHR ''y'')) (zip ''speed'' fb))
                  \<le> count_list ''erase'' L))"
  using feedback_contract[of "''speed''" "''erase''"] by simp

text \<open>
  C1. Soundness of the filter: on a candidate list whose words are all at least as long as
  the guess (as the words of one session are: they all have the session's length),
  \<open>filter_candidates\<close> raises nothing and returns exactly the candidates whose feedback
  against the guess is the pattern, in their order; so the result is a sublist of the
  candidates, and every target among the candidates is in the result of filtering by
  its own feedback. (On a candidate shorter than the guess \<open>feedback\<close> raises IndexError,
  and so does the filter: lemma \<open>filter_candidates_short\<close>.)
\<close>

theorem filter_candidates_sound:
  assumes "\<forall>w\<in>set candidates. length guess \<le> length w"
  shows "filter_candidates candidates guess pattern
           = Inr (filter (\<lambda>w. feedback guess w = Inr pattern) candidates) \<and>
         (\<forall>target\<in>set candidates. \<exists>p res.
             feedback guess target = Inr p \<and>
             filter_candidates candidates guess p = Inr res \<and>
             target \<in> set res \<and> set res \<subseteq> set candidates)"
proof
  show "filter_candidates candidates guess pattern
           = Inr (filter (\<lambda>w. feedback guess w = Inr pattern) candidates)"
    using assms by (rule filter_candidates_Inr)
next
  show "\<forall>target\<in>set candidates. \<exists>p res.
             feedback guess target = Inr p \<and>
             filter_candidates candidates guess p = Inr res \<and>
             target \<in> set res \<and> set res \<subseteq> set candidates"
  proof
    fix target assume t: "target \<in> set candidates"
    with assms obtain p where p: "feedback guess target = Inr p"
      using feedback_total[of guess target] by auto
    have "filter_candidates candidates guess p = Inr (filter (\<lambda>w. feedback guess w = Inr p) candidates)"
      using assms by (rule filter_candidates_Inr)
    moreover have "target \<in> set (filter (\<lambda>w. feedback guess w = Inr p) candidates)"
      using t p by simp
    ultimately show "\<exists>p res. feedback guess target = Inr p \<and>
             filter_candidates candidates guess p = Inr res \<and>
             target \<in> set res \<and> set res \<subseteq> set candidates"
      using p by auto
  qed
qed

theorem filter_candidates_sound_witness:
  "length ''arise'' \<le> length ''raise'' \<and> length ''arise'' \<le> length ''erase'' \<and>
   filter_candidates [''raise'', ''erase''] ''arise'' ''yyggg''
     = Inr (filter (\<lambda>w. feedback ''arise'' w = Inr ''yyggg'') [''raise'', ''erase'']) \<and>
   (\<exists>p res. feedback ''arise'' ''erase'' = Inr p \<and>
      filter_candidates [''raise'', ''erase''] ''arise'' p = Inr res \<and>
      ''erase'' \<in> set res \<and> set res \<subseteq> set [''raise'', ''erase''])"
proof -
  have h: "\<forall>w\<in>set [''raise'', ''erase'']. length ''arise'' \<le> length w" by simp
  have m: "''erase'' \<in> set [''raise'', ''erase'']" by simp
  from filter_candidates_sound[OF h, of "''yyggg''"] m show ?thesis by simp
qed




text \<open>
  C10. On the empty candidate list \<open>calculate_entropy\<close> returns 0 for every guess, in
  every arithmetic: the dict of pattern counts is empty, the loop that divides by the
  candidate count runs no iteration, and neither ZeroDivisionError nor any other
  exception is raised.
\<close>

theorem calculate_entropy_empty: "calculate_entropy ops guess [] = Inr 0"
  by (simp add: calculate_entropy_def)

text \<open>
  C5. For every guess and every candidate list that is not empty (its words at least as
  long as the guess, as in C1), \<open>calculate_entropy\<close> raises nothing, its value is at
  least 0, and the value is 0 if and only if all candidates give the same feedback
  pattern against the guess. This holds in every arithmetic that is \<open>sound_rounding\<close>
  for lists of the length of the candidate list; the arithmetic without rounding is, for
  every length, so the statement for the exact entropy is the instance \<open>exact_arith\<close>.
\<close>

theorem entropy_nonneg_zero_iff:
  assumes "sound_rounding ops N" and "length candidates \<le> N"
    and "candidates \<noteq> []" and "\<forall>c\<in>set candidates. length guess \<le> length c"
  shows "\<exists>e. calculate_entropy ops guess candidates = Inr e \<and> 0 \<le> e \<and>
           ((e = 0) = (\<forall>a\<in>set candidates. \<forall>b\<in>set candidates. feedback guess a = feedback guess b))"
proof -
  have "(\<forall>a\<in>set candidates. \<forall>b\<in>set candidates. pattern_of guess a = pattern_of guess b)
      = (\<forall>a\<in>set candidates. \<forall>b\<in>set candidates. feedback guess a = feedback guess b)"
    using assms(4) pattern_of_eq by blast
  with calculate_entropy_value[OF assms] show ?thesis by simp
qed

theorem entropy_nonneg_zero_iff_witness:
  "sound_rounding exact_arith 2 \<and> length [''raise'', ''arise''] \<le> 2 \<and>
   [''raise'', ''arise''] \<noteq> [] \<and>
   length ''erase'' \<le> length ''raise'' \<and> length ''erase'' \<le> length ''arise'' \<and>
   (\<exists>e. calculate_entropy exact_arith ''erase'' [''raise'', ''arise''] = Inr e \<and> 0 \<le> e \<and>
           ((e = 0) = (\<forall>a\<in>set [''raise'', ''arise'']. \<forall>b\<in>set [''raise'', ''arise''].
                feedback ''erase'' a = feedback ''erase'' b)))"
proof -
  have h0: "sound_rounding exact_arith 2" by (rule sound_rounding_exact)
  have h1: "length [''raise'', ''arise''] \<le> 2" by simp
  have h2: "[''raise'', ''arise''] \<noteq> []" by simp
  have h3: "\<forall>c\<in>set [''raise'', ''arise'']. length ''erase'' \<le> length c" by simp
  have h4: "length ''erase'' \<le> length ''raise'' \<and> length ''erase'' \<le> length ''arise''"
    by simp
  from entropy_nonneg_zero_iff[OF h0 h1 h2 h3] h0 h1 h2 h4 show ?thesis by blast
qed

text \<open>
  C4. Ranking. \<open>pool\<close> is the list the source iterates (its parameter \<^verbatim>\<open>full_vocab\<close>),
  \<open>candidates\<close> the list the entropies are taken over. When no pool word is longer than
  a candidate (so that no feedback raises) and \<open>topn\<close> is not negative, \<open>rank_guesses\<close>
  returns the first \<open>topn\<close> entries of a list \<open>ranked\<close> that holds exactly the pairs of
  a pool word and the entropy computed for it, is descending in that entropy, and keeps
  pairs of equal computed entropy in the order of the pool. These three properties fix
  \<open>ranked\<close>, and the result is a function of the arguments alone: the same inputs give
  the same list, ties included. The entropies are the floats the arithmetic \<open>ops\<close>
  computes, whatever their rounding: two words tie when their computed entropies are
  equal, not when their exact entropies are.
\<close>

theorem rank_guesses_sorted:
  assumes "sound_rounding ops N" and "length candidates \<le> N"
    and "\<forall>w\<in>set pool. \<forall>c\<in>set candidates. length w \<le> length c" and "0 \<le> topn"
  shows "\<exists>entropies ranked.
           entropies = map (\<lambda>w. (w, entropy_of ops candidates w)) pool \<and>
           (\<forall>w\<in>set pool. calculate_entropy ops w candidates = Inr (entropy_of ops candidates w)) \<and>
           rank_guesses ops candidates pool topn = Inr (take (nat topn) ranked) \<and>
           mset ranked = mset entropies \<and>
           sorted_wrt (\<lambda>a b. snd b \<le> snd a) ranked \<and>
           (\<forall>e. filter (\<lambda>x. snd x = e) ranked = filter (\<lambda>x. snd x = e) entropies)"
proof -
  let ?entropies = "map (\<lambda>w. (w, entropy_of ops candidates w)) pool"
  let ?ranked = "sort_key (\<lambda>x. - snd x) ?entropies"
  have a: "\<forall>w\<in>set pool. calculate_entropy ops w candidates = Inr (entropy_of ops candidates w)"
    using assms(3) by (auto intro: calculate_entropy_total[OF assms(1,2)])
  have b: "rank_guesses ops candidates pool topn = Inr (take (nat topn) ?ranked)"
    using entropies_of_Inr[OF assms(1,2,3)] assms(4) by (simp add: rank_guesses_def slice_to_def)
  have c: "mset ?ranked = mset ?entropies" by (rule mset_sort)
  have d: "sorted_wrt (\<lambda>a b. snd b \<le> snd a) ?ranked" by (rule sort_descending)
  have e: "\<forall>e. filter (\<lambda>x. snd x = e) ?ranked = filter (\<lambda>x. snd x = e) ?entropies"
    using sort_ties by blast
  from a b c d e show ?thesis by blast
qed

text \<open>
  An instance with a pool of four words over two candidates, in the arithmetic without
  rounding: the entropies are 0, 1, 0, 1 in the order of the pool, the ranking puts the
  two words of entropy 1 first, each tie in the order of the pool, and \<open>topn = 3\<close> cuts
  the last entry off. Doubles compute the same values here, since \<^verbatim>\<open>1 / 2\<close>,
  \<^verbatim>\<open>math.log2(0.5)\<close> and \<^verbatim>\<open>2 / 2\<close> and the products and differences of the loop are
  exact.
\<close>

theorem rank_guesses_sorted_witness:
  "sound_rounding exact_arith 2 \<and> length [''aab'', ''aac''] \<le> 2 \<and>
   list_all (\<lambda>w. list_all (\<lambda>c. length w \<le> length c) [''aab'', ''aac''])
     [''aaz'', ''aab'', ''zzz'', ''aac''] \<and>
   (0::int) \<le> 3 \<and>
   (\<exists>entropies ranked.
       entropies = map (\<lambda>w. (w, entropy_of exact_arith [''aab'', ''aac''] w))
                     [''aaz'', ''aab'', ''zzz'', ''aac''] \<and>
       (\<forall>w\<in>set [''aaz'', ''aab'', ''zzz'', ''aac''].
           calculate_entropy exact_arith w [''aab'', ''aac'']
             = Inr (entropy_of exact_arith [''aab'', ''aac''] w)) \<and>
       rank_guesses exact_arith [''aab'', ''aac''] [''aaz'', ''aab'', ''zzz'', ''aac''] 3
         = Inr (take (nat 3) ranked) \<and>
       mset ranked = mset entropies \<and>
       sorted_wrt (\<lambda>a b. snd b \<le> snd a) ranked \<and>
       (\<forall>e. filter (\<lambda>x. snd x = e) ranked = filter (\<lambda>x. snd x = e) entropies)) \<and>
   map (\<lambda>w. (w, entropy_of exact_arith [''aab'', ''aac''] w)) [''aaz'', ''aab'', ''zzz'', ''aac'']
     = [(''aaz'', 0), (''aab'', 1), (''zzz'', 0), (''aac'', 1)] \<and>
   rank_guesses exact_arith [''aab'', ''aac''] [''aaz'', ''aab'', ''zzz'', ''aac''] 3
     = Inr [(''aab'', 1), (''aac'', 1), (''aaz'', 0)]"
proof -
  have h0: "sound_rounding exact_arith 2" by (rule sound_rounding_exact)
  have h1: "length [''aab'', ''aac''] \<le> 2" by simp
  have h2: "\<forall>w\<in>set [''aaz'', ''aab'', ''zzz'', ''aac'']. \<forall>c\<in>set [''aab'', ''aac''].
              length w \<le> length c" by simp
  have h2': "list_all (\<lambda>w. list_all (\<lambda>c. length w \<le> length c) [''aab'', ''aac''])
     [''aaz'', ''aab'', ''zzz'', ''aac'']" by simp
  have h3: "(0::int) \<le> 3" by simp
  have v: "map (\<lambda>w. (w, entropy_of exact_arith [''aab'', ''aac''] w)) [''aaz'', ''aab'', ''zzz'', ''aac'']
     = [(''aaz'', 0), (''aab'', 1), (''zzz'', 0), (''aac'', 1)]"
    by (simp add: entropy_of_def calculate_entropy_small)
  from rank_guesses_sorted[OF h0 h1 h2 h3] h0 h1 h2' h3 v rank_guesses_small
  show ?thesis by blast
qed

text \<open>
  C3. End to end: with word length 5 and a target that is in the vocabulary for length 5,
  \<open>play_wordle\<close> returns (the loop is not \<open>None\<close>), its outcome is \<open>Solved\<close> with at
  least one turn and at most as many turns as the vocabulary for that length has words,
  and so it is neither \<open>Exhausted\<close> nor an exception. Every turn that does not solve
  removes the guess from the candidates and keeps the target; of the ranking the proof
  uses only that its first entry is one of the candidates, whatever the entropies are.
  The arithmetic is any that is \<open>sound_rounding\<close> for lists of the size of the
  vocabulary, which keeps \<^verbatim>\<open>math.log2\<close> from raising.
\<close>

theorem play_wordle_solves:
  assumes "sound_rounding ops N" and "load_vocab all_words 5 = Some full_vocab"
    and "length full_vocab \<le> N" and "target \<in> set full_vocab"
  shows "(\<exists>turns. play_wordle ops (load_vocab all_words) rnd 5 (Some target)
                    = Some (Inr (Solved turns)) \<and>
            1 \<le> turns \<and> turns \<le> length full_vocab) \<and>
         play_wordle ops (load_vocab all_words) rnd 5 (Some target) \<noteq> Some (Inr Exhausted)"
proof -
  have "\<exists>turns. play_wordle ops (load_vocab all_words) rnd 5 (Some target)
                    = Some (Inr (Solved turns)) \<and>
            1 \<le> turns \<and> turns \<le> length full_vocab"
    using assms by (intro play_wordle_solves_length)
  then show ?thesis by auto
qed

theorem play_wordle_solves_witness:
  "sound_rounding exact_arith 3 \<and>
   load_vocab [''apple'', ''cat'', ''angle'', ''amply''] 5 = Some [''apple'', ''angle'', ''amply''] \<and>
   length [''apple'', ''angle'', ''amply''] \<le> 3 \<and>
   ''apple'' \<in> set [''apple'', ''angle'', ''amply''] \<and>
   (\<exists>turns. play_wordle exact_arith (load_vocab [''apple'', ''cat'', ''angle'', ''amply'']) 0 5
               (Some ''apple'')
               = Some (Inr (Solved turns)) \<and>
           1 \<le> turns \<and> turns \<le> length [''apple'', ''angle'', ''amply'']) \<and>
   play_wordle exact_arith (load_vocab [''apple'', ''cat'', ''angle'', ''amply'']) 0 5 (Some ''apple'')
     \<noteq> Some (Inr Exhausted)"
proof -
  have h0: "sound_rounding exact_arith 3" by (rule sound_rounding_exact)
  have h1: "load_vocab [''apple'', ''cat'', ''angle'', ''amply''] 5 = Some [''apple'', ''angle'', ''amply'']"
    by (simp add: load_vocab_def MIN_LEN_def MAX_LEN_def)
  have h2: "length [''apple'', ''angle'', ''amply''] \<le> 3" by simp
  have h3: "''apple'' \<in> set [''apple'', ''angle'', ''amply'']" by simp
  from play_wordle_solves[OF h0 h1 h2 h3, of 0] h0 h1 h2 h3 show ?thesis by blast
qed

text \<open>
  C7. What the two sessions check before any guess. The vocabulary is the dict that
  \<open>load_vocab\<close> builds, with a key for every length from 3 to 15.
  \<^item> \<open>play_wordle\<close> raises ValueError for a length outside 3..15, before it reads the
    vocabulary. It has no test for an empty vocabulary.
  \<^item> \<open>interactive_manual_mode\<close> has one test, \<^verbatim>\<open>if not full_vocab\<close>: a length outside
    3..15 (no key) and a length whose vocabulary is empty both end the session with the
    message that no vocabulary is available. It has no test of the length of its own.
  \<^item> With a vocabulary that is not empty, both sessions start their loop with the full
    vocabulary as the candidate list.
\<close>

theorem init_validation:
  "(len < MIN_LEN \<or> MAX_LEN < len \<longrightarrow>
      play_wordle ops (load_vocab all_words) rnd len target = Some (Inl ValueError) \<and>
      interactive_manual_mode ops (load_vocab all_words) len inputs = Inr NoVocabulary) \<and>
   (load_vocab all_words len = Some [] \<longrightarrow>
      interactive_manual_mode ops (load_vocab all_words) len inputs = Inr NoVocabulary) \<and>
   (\<forall>full_vocab. load_vocab all_words len = Some full_vocab \<and> full_vocab \<noteq> [] \<longrightarrow>
      interactive_manual_mode ops (load_vocab all_words) len inputs
        = interactive_loop ops len full_vocab full_vocab 0 inputs \<and>
      play_wordle ops (load_vocab all_words) rnd len None
        = solve_loop ops len (full_vocab ! (rnd mod length full_vocab)) full_vocab 0 \<and>
      (\<forall>t\<in>set full_vocab. play_wordle ops (load_vocab all_words) rnd len (Some t)
        = solve_loop ops len t full_vocab 0))"
proof (intro conjI impI allI)
  assume "len < MIN_LEN \<or> MAX_LEN < len"
  then show "play_wordle ops (load_vocab all_words) rnd len target = Some (Inl ValueError)"
    by (auto simp: play_wordle_def)
next
  assume "len < MIN_LEN \<or> MAX_LEN < len"
  then have "load_vocab all_words len = None" by (simp add: load_vocab_keys)
  then show "interactive_manual_mode ops (load_vocab all_words) len inputs = Inr NoVocabulary"
    by (simp add: interactive_manual_mode_def)
next
  assume "load_vocab all_words len = Some []"
  then show "interactive_manual_mode ops (load_vocab all_words) len inputs = Inr NoVocabulary"
    by (simp add: interactive_manual_mode_def)
next
  fix full_vocab
  assume a: "load_vocab all_words len = Some full_vocab \<and> full_vocab \<noteq> []"
  then show "interactive_manual_mode ops (load_vocab all_words) len inputs
        = interactive_loop ops len full_vocab full_vocab 0 inputs"
    by (simp add: interactive_manual_mode_def)
  from a have r: "MIN_LEN \<le> len" "len \<le> MAX_LEN" using load_vocab_Some by blast+
  with a show "play_wordle ops (load_vocab all_words) rnd len None
        = solve_loop ops len (full_vocab ! (rnd mod length full_vocab)) full_vocab 0"
    by (simp add: play_wordle_def choice_def truthy_def)
  show "\<forall>t\<in>set full_vocab. play_wordle ops (load_vocab all_words) rnd len (Some t)
        = solve_loop ops len t full_vocab 0"
  proof
    fix t assume t: "t \<in> set full_vocab"
    from a have v: "load_vocab all_words len = Some full_vocab" by simp
    have tl: "int (length t) = len" using load_vocab_lengths[OF v t] .
    then have tn: "t \<noteq> []" using r(1) by (auto simp: MIN_LEN_def)
    show "play_wordle ops (load_vocab all_words) rnd len (Some t) = solve_loop ops len t full_vocab 0"
      using play_wordle_valid_target[of len "load_vocab all_words" full_vocab t ops rnd,
          OF r v tn tl t] .
  qed
qed

theorem init_validation_witness:
  "play_wordle exact_arith (load_vocab [''apple'']) 0 2 None = Some (Inl ValueError) \<and>
   interactive_manual_mode exact_arith (load_vocab [''apple'']) 2 [] = Inr NoVocabulary \<and>
   interactive_manual_mode exact_arith (load_vocab [''apple'']) 4 [] = Inr NoVocabulary \<and>
   interactive_manual_mode exact_arith (load_vocab [''apple'']) 5 []
     = interactive_loop exact_arith 5 [''apple''] [''apple''] 0 [] \<and>
   play_wordle exact_arith (load_vocab [''apple'']) 0 5 None
     = solve_loop exact_arith 5 ''apple'' [''apple''] 0 \<and>
   play_wordle exact_arith (load_vocab [''apple'']) 0 5 (Some ''apple'')
     = solve_loop exact_arith 5 ''apple'' [''apple''] 0"
proof -
  have r: "(2::int) < MIN_LEN \<or> MAX_LEN < 2" by (simp add: MIN_LEN_def)
  have ne: "[''apple''] \<noteq> []" by simp
  from init_validation[of 2 exact_arith "[''apple'']" 0 None "[]"] r
  have a: "play_wordle exact_arith (load_vocab [''apple'']) 0 2 None = Some (Inl ValueError)"
    "interactive_manual_mode exact_arith (load_vocab [''apple'']) 2 [] = Inr NoVocabulary" by blast+
  from init_validation[of 4 exact_arith "[''apple'']" 0 None "[]"] load_vocab_apple(2)
  have b: "interactive_manual_mode exact_arith (load_vocab [''apple'']) 4 [] = Inr NoVocabulary" by blast
  from init_validation[of 5 exact_arith "[''apple'']" 0 None "[]"] load_vocab_apple(1) ne
  have c: "interactive_manual_mode exact_arith (load_vocab [''apple'']) 5 []
      = interactive_loop exact_arith 5 [''apple''] [''apple''] 0 []"
    "play_wordle exact_arith (load_vocab [''apple'']) 0 5 None
      = solve_loop exact_arith 5 (''apple'') [''apple''] 0"
    "play_wordle exact_arith (load_vocab [''apple'']) 0 5 (Some ''apple'')
      = solve_loop exact_arith 5 ''apple'' [''apple''] 0"
    by auto
  from a b c show ?thesis by blast
qed

text \<open>
  The claim C7 as stated fails: with no word of length 4, \<open>play_wordle\<close> at length 4 and
  no target ends in the IndexError of \<^verbatim>\<open>random.choice\<close>, not in a failure for the empty
  vocabulary; and \<open>interactive_manual_mode\<close> at length 2 ends exactly as it does at
  length 4, with no failure for the length. No float is computed on the way.
\<close>

theorem init_validation_counterexample:
  "load_vocab [''apple''] 4 = Some [] \<and>
   play_wordle exact_arith (load_vocab [''apple'']) 0 4 None = Some (Inl IndexError) \<and>
   load_vocab [''apple''] 2 = None \<and>
   interactive_manual_mode exact_arith (load_vocab [''apple'']) 2 [] = Inr NoVocabulary \<and>
   interactive_manual_mode exact_arith (load_vocab [''apple'']) 4 [] = Inr NoVocabulary"
  by (simp add: play_wordle_def interactive_manual_mode_def load_vocab_apple
      MIN_LEN_def MAX_LEN_def choice_def truthy_def)

text \<open>
  C8. The invalid target. In \<open>play_wordle\<close>, for a length that has a vocabulary (3..15),
  a target that is not the empty string and either has another length or is not in the
  vocabulary gives the outcome \<open>InvalidTarget\<close>: the function returns \<open>-1\<close>, which no
  solved session returns, before the loop is entered. The empty string counts as no
  target: the session is the one with \<^verbatim>\<open>target=None\<close>.
\<close>

theorem play_wordle_invalid_target:
  assumes "load_vocab all_words len = Some full_vocab" and "target \<noteq> []"
    and "int (length target) \<noteq> len \<or> target \<notin> set full_vocab"
  shows "play_wordle ops (load_vocab all_words) rnd len (Some target) = Some (Inr InvalidTarget) \<and>
         (\<forall>turns. return_value InvalidTarget \<noteq> return_value (Solved turns)) \<and>
         play_wordle ops (load_vocab all_words) rnd len (Some [])
           = play_wordle ops (load_vocab all_words) rnd len None"
proof -
  from assms(1) have "MIN_LEN \<le> len" "len \<le> MAX_LEN" using load_vocab_Some by blast+
  with assms have "play_wordle ops (load_vocab all_words) rnd len (Some target) = Some (Inr InvalidTarget)"
    by (auto simp: play_wordle_def truthy_def)
  moreover have "\<forall>turns. return_value InvalidTarget \<noteq> return_value (Solved turns)"
    by simp
  ultimately show ?thesis using play_wordle_empty_target by blast
qed

theorem play_wordle_invalid_target_witness:
  "load_vocab [''apple''] 5 = Some [''apple''] \<and> ''zzzzz'' \<noteq> [] \<and>
   ''zzzzz'' \<notin> set [''apple''] \<and>
   play_wordle exact_arith (load_vocab [''apple'']) 0 5 (Some ''zzzzz'') = Some (Inr InvalidTarget) \<and>
   (\<forall>turns. return_value InvalidTarget \<noteq> return_value (Solved turns)) \<and>
   play_wordle exact_arith (load_vocab [''apple'']) 0 5 (Some [])
     = play_wordle exact_arith (load_vocab [''apple'']) 0 5 None"
proof -
  have h2: "''zzzzz'' \<noteq> []" by simp
  have h4: "''zzzzz'' \<notin> set [''apple'']" by simp
  then have h3: "int (length ''zzzzz'') \<noteq> 5 \<or> ''zzzzz'' \<notin> set [''apple'']" by simp
  from play_wordle_invalid_target[OF load_vocab_apple(1) h2 h3, of exact_arith 0]
    load_vocab_apple(1) h2 h4
  show ?thesis by blast
qed

text \<open>
  The claim C8 as stated fails at the empty string, a target of length 0 that is not in
  the vocabulary: \<^verbatim>\<open>if target:\<close> skips the test, a target is drawn from the candidates
  and the session is solved. The one entropy of this session is that of a single class
  of one candidate out of one: \<^verbatim>\<open>1 / 1\<close>, \<^verbatim>\<open>math.log2(1.0)\<close>, their product and its
  difference from 0 are 1, 0, 0 and 0 in doubles as they are without rounding.
\<close>

theorem play_wordle_invalid_target_counterexample:
  "int (length '''') \<noteq> 5 \<and> '''' \<notin> set [''apple''] \<and>
   load_vocab [''apple''] 5 = Some [''apple''] \<and>
   play_wordle exact_arith (load_vocab [''apple'']) 0 5 (Some '''') = Some (Inr (Solved 1))"
  by (simp add: play_wordle_def load_vocab_apple MIN_LEN_def MAX_LEN_def choice_def truthy_def
      solve_loop_apple)

end
